theory Spec2Isabelle
  imports Complex_Main "HOL-Library.Char_ord" "HOL-Library.List_Lexorder"
begin

section \<open>Conventions of the embedding\<close>

text \<open>
  The program is Python on top of numpy and pandas. Python floats are modelled as the
  real numbers: rounding error, overflow and the non-finite values of IEEE arithmetic are
  outside the model, except where a finite input makes the source produce one on a path
  that returns (the type \<open>npfloat\<close> below). Strings are ASCII texts (\<open>char list\<close>);
  characters beyond ASCII are never word characters in the model. Every exception the
  modelled code can raise is a value \<open>Inl e\<close> of a sum type; a normal return is \<open>Inr v\<close>.
  Console output (\<open>print\<close>) is not modelled.
\<close>

datatype py_error = IndexError | TypeError | ValueError | ZeroDivisionError | LinAlgError

text \<open>Sequencing of computations that may raise: the first exception wins.\<close>

definition bind_err :: "py_error + 'a \<Rightarrow> ('a \<Rightarrow> py_error + 'b) \<Rightarrow> py_error + 'b" where
  "bind_err m f = (case m of Inl e \<Rightarrow> Inl e | Inr v \<Rightarrow> f v)"

text \<open>A comprehension or loop whose body may raise: the results in order, or the first exception.\<close>

fun map_err :: "('a \<Rightarrow> py_error + 'b) \<Rightarrow> 'a list \<Rightarrow> py_error + 'b list" where
  "map_err f [] = Inr []"
| "map_err f (x # xs) =
     (case f x of Inl e \<Rightarrow> Inl e
      | Inr y \<Rightarrow> (case map_err f xs of Inl e \<Rightarrow> Inl e | Inr ys \<Rightarrow> Inr (y # ys)))"

text \<open>Python's \<open>xs[i]\<close> for a non-negative index \<open>i\<close>.\<close>

definition py_index :: "'a list \<Rightarrow> nat \<Rightarrow> py_error + 'a" where
  "py_index xs i = (if i < length xs then Inr (xs ! i) else Inl IndexError)"

text \<open>Python's \<open>xs[-1]\<close>.\<close>

definition py_last :: "'a list \<Rightarrow> py_error + 'a" where
  "py_last xs = (if xs = [] then Inl IndexError else Inr (last xs))"

text \<open>Python's true division \<open>a / b\<close> of two integers.\<close>

definition py_truediv :: "int \<Rightarrow> int \<Rightarrow> py_error + real" where
  "py_truediv a b = (if b = 0 then Inl ZeroDivisionError else Inr (real_of_int a / real_of_int b))"

text \<open>
  Python's slice \<open>xs[start:]\<close>: a negative start counts from the end, and the start is
  clamped into \<open>0 .. len(xs)\<close>.
\<close>

definition py_slice_from :: "int \<Rightarrow> 'a list \<Rightarrow> 'a list" where
  "py_slice_from start xs =
     (let n = int (length xs);
          s = (if start < 0 then max (start + n) 0 else min start n)
      in drop (nat s) xs)"

section \<open>DocumentSearchEngine\<close>

subsection \<open>\<open>_tokenize\<close>\<close>

text \<open>
  \<open>text.lower()\<close>, then \<open>re.findall(r'\b\w+\b', text)\<close>, then the words longer than
  two characters. A word character is a letter, a digit or the underscore; the regular
  expression yields the maximal runs of word characters from left to right.
\<close>

definition is_word_char :: "char \<Rightarrow> bool" where
  "is_word_char c =
     ((CHR ''a'' \<le> c \<and> c \<le> CHR ''z'') \<or> (CHR ''A'' \<le> c \<and> c \<le> CHR ''Z'')
      \<or> (CHR ''0'' \<le> c \<and> c \<le> CHR ''9'') \<or> c = CHR ''_'')"

definition lower_char :: "char \<Rightarrow> char" where
  "lower_char c =
     (if CHR ''A'' \<le> c \<and> c \<le> CHR ''Z'' then char_of (of_char c + (32::nat)) else c)"

fun findall_words :: "string \<Rightarrow> string \<Rightarrow> string list" where
  "findall_words cur [] = (if cur = [] then [] else [cur])"
| "findall_words cur (c # cs) =
     (if is_word_char c then findall_words (cur @ [c]) cs
      else if cur = [] then findall_words [] cs
      else cur # findall_words [] cs)"

definition tokenize :: "string \<Rightarrow> string list" where
  "tokenize text =
     (let text' = map lower_char text;
          words = findall_words [] text'
      in filter (\<lambda>w. length w > 2) words)"

subsection \<open>The index and \<open>_build_index\<close>\<close>

text \<open>
  The attributes of the engine. \<open>doc_freq\<close> is a \<open>Counter\<close>: a dictionary in which a
  missing key counts as 0 when it is incremented. While the index is built \<open>vocab\<close> is a
  set; the last statement of \<open>_build_index\<close> replaces it by its sorted list.
\<close>

record index_state =
  vocab_set :: "string set"
  doc_freq_acc :: "string \<rightharpoonup> nat"
  doc_terms_acc :: "string list list"

record engine =
  documents :: "string list"
  vocab :: "string list"
  doc_freq :: "string \<rightharpoonup> nat"
  doc_terms :: "string list list"

definition counter_incr :: "string \<Rightarrow> (string \<rightharpoonup> nat) \<Rightarrow> (string \<rightharpoonup> nat)" where
  "counter_incr t m = m(t \<mapsto> (case m t of None \<Rightarrow> 0 | Some c \<Rightarrow> c) + 1)"

text \<open>
  One iteration of the loop over the documents. \<open>unique_terms = set(terms)\<close> is iterated
  once per distinct term; the order of that iteration does not matter for the counters.
\<close>

definition index_doc :: "string \<Rightarrow> index_state \<Rightarrow> index_state" where
  "index_doc doc s =
     (let terms = tokenize doc;
          unique_terms = remdups terms
      in \<lparr> vocab_set = vocab_set s \<union> set unique_terms,
           doc_freq_acc = fold counter_incr unique_terms (doc_freq_acc s),
           doc_terms_acc = doc_terms_acc s @ [terms] \<rparr>)"

definition init_index :: index_state where
  "init_index = \<lparr> vocab_set = {}, doc_freq_acc = Map.empty, doc_terms_acc = [] \<rparr>"

definition build_index :: "string list \<Rightarrow> index_state" where
  "build_index docs = fold index_doc docs init_index"

text \<open>The constructor \<open>DocumentSearchEngine(documents)\<close>.\<close>

definition DocumentSearchEngine :: "string list \<Rightarrow> engine" where
  "DocumentSearchEngine docs =
     (let s = build_index docs
      in \<lparr> documents = docs,
           vocab = sorted_list_of_set (vocab_set s),
           doc_freq = doc_freq_acc s,
           doc_terms = doc_terms_acc s \<rparr>)"

subsection \<open>\<open>_tfidf_score\<close>\<close>

text \<open>
  \<open>np.log\<close> of a positive number is the natural logarithm. Its argument here is
  \<open>len(documents) / (df + 1)\<close>, which is positive whenever a document index exists.
\<close>

definition tfidf_score :: "engine \<Rightarrow> string \<Rightarrow> nat \<Rightarrow> py_error + real" where
  "tfidf_score e term doc_idx =
     bind_err (py_index (doc_terms e) doc_idx) (\<lambda>terms.
     bind_err (py_truediv (int (count_list terms term)) (max (int (length terms)) 1)) (\<lambda>tf.
     bind_err (py_truediv (int (length (documents e)))
                 (int (case doc_freq e term of None \<Rightarrow> 0 | Some c \<Rightarrow> c) + 1)) (\<lambda>ratio.
     Inr (tf * ln ratio))))"

subsection \<open>\<open>search\<close>\<close>

record search_result =
  rank :: nat
  document :: string
  score :: real
  index :: nat

text \<open>
  The aggregate score of one document: the generator expression inside \<open>sum(...)\<close> runs
  over the list \<open>query_terms\<close> as the tokenizer returned it and keeps the terms that are
  in \<open>vocab\<close>.
\<close>

definition doc_score :: "engine \<Rightarrow> string list \<Rightarrow> nat \<Rightarrow> py_error + real" where
  "doc_score e query_terms doc_idx =
     bind_err (map_err (\<lambda>term. tfidf_score e term doc_idx)
                 (filter (\<lambda>term. term \<in> set (vocab e)) query_terms))
       (\<lambda>ws. Inr (sum_list ws))"

text \<open>
  \<open>np.argsort(scores)\<close> returns the indices of \<open>scores\<close> rearranged so that the scores
  they select are in ascending order. The call uses numpy's default kind of sort, which
  promises no order among equal scores, and the order it leaves them in depends on the
  length of the input and on numpy's build. The sort is therefore a parameter \<open>srt\<close> of
  \<open>search\<close>, and \<open>argsort_spec\<close> is what numpy promises of it.
\<close>

definition argsort_spec :: "(real list \<Rightarrow> nat list) \<Rightarrow> bool" where
  "argsort_spec srt =
     (\<forall>scores. distinct (srt scores)
        \<and> set (srt scores) = {0..<length scores}
        \<and> sorted (map (\<lambda>i. scores ! i) (srt scores)))"

definition make_result :: "engine \<Rightarrow> real list \<Rightarrow> nat \<times> nat \<Rightarrow> py_error + search_result" where
  "make_result e scores p =
     (case p of (rnk, idx) \<Rightarrow>
        bind_err (py_index (documents e) idx) (\<lambda>doc.
        bind_err (py_index scores idx) (\<lambda>sc.
        Inr \<lparr> rank = rnk + 1, document = doc, score = sc, index = idx \<rparr>)))"

definition search ::
  "(real list \<Rightarrow> nat list) \<Rightarrow> engine \<Rightarrow> string \<Rightarrow> int \<Rightarrow> py_error + search_result list" where
  "search srt e query top_k =
     (let query_terms = tokenize query
      in bind_err (map_err (doc_score e query_terms) [0..<length (documents e)]) (\<lambda>scores.
         let top_indices = rev (py_slice_from (- top_k) (srt scores))
         in map_err (make_result e scores) (enumerate 0 top_indices)))"

text \<open>
  \<open>search\<close> reads the attributes of the engine and assigns none of them. As a state
  transformer it returns its result together with the engine it was called on, and a
  session of calls threads that engine through.
\<close>

definition search_st ::
  "(real list \<Rightarrow> nat list) \<Rightarrow> string \<times> int \<Rightarrow> engine
     \<Rightarrow> (py_error + search_result list) \<times> engine" where
  "search_st srt call e = (case call of (query, top_k) \<Rightarrow> (search srt e query top_k, e))"

fun engine_after :: "(real list \<Rightarrow> nat list) \<Rightarrow> engine \<Rightarrow> (string \<times> int) list \<Rightarrow> engine" where
  "engine_after srt e [] = e"
| "engine_after srt e (call # calls) = engine_after srt (snd (search_st srt call e)) calls"

subsection \<open>Two sorts in the place of \<open>np.argsort\<close>\<close>

text \<open>A sort that keeps equal scores in the order of their indices.\<close>

definition stable_argsort :: "real list \<Rightarrow> nat list" where
  "stable_argsort scores = sort_key (\<lambda>i. scores ! i) [0..<length scores]"

text \<open>
  The default sort of numpy as its generic code runs it on an array \<open>v\<close> of keys and an
  array \<open>a\<close> of indices into \<open>v\<close> (\<open>aquicksort\<close>): a quicksort that partitions a segment
  \<open>pl .. pr\<close> of more than 17 entries around the median of its first, middle and last
  key, sorts a shorter segment by insertion, and sorts a segment taken from its stack by
  heapsort once the depth budget, twice the binary logarithm of the length, is used up.
  Positions in \<open>a\<close> stand for the pointers of the C code.
\<close>

definition swap_at :: "nat \<Rightarrow> nat \<Rightarrow> nat list \<Rightarrow> nat list" where
  "swap_at i j a = (a[i := a ! j])[j := a ! i]"

text \<open>\<open>npy_get_msb\<close>: the position of the highest bit that is set.\<close>

function npy_get_msb :: "nat \<Rightarrow> nat" where
  "npy_get_msb n = (if n < 2 then 0 else npy_get_msb (n div 2) + 1)"
  by pat_completeness auto
termination
  by (relation "measure (\<lambda>n. n)") auto

declare npy_get_msb.simps [simp del]

text \<open>
  The two scans of the partition. \<open>do ++pi while v[*pi] < vp\<close> moves up from \<open>k\<close> over
  the keys less than the pivot key \<open>vp\<close>; it stops at the pivot, which is stored at \<open>hi\<close>,
  at the latest. \<open>do --pj while vp < v[*pj]\<close> moves down from \<open>k\<close> over the keys greater
  than \<open>vp\<close>; it stops at \<open>lo\<close>, whose key is at most \<open>vp\<close>, at the latest.
\<close>

definition scan_up :: "real list \<Rightarrow> real \<Rightarrow> nat list \<Rightarrow> nat \<Rightarrow> nat \<Rightarrow> nat" where
  "scan_up v vp a hi k = k + length (takeWhile (\<lambda>p. v ! (a ! p) < vp) [k..<hi])"

definition scan_down :: "real list \<Rightarrow> real \<Rightarrow> nat list \<Rightarrow> nat \<Rightarrow> nat \<Rightarrow> nat" where
  "scan_down v vp a lo k = k - length (takeWhile (\<lambda>p. vp < v ! (a ! p)) (rev [lo + 1..<k + 1]))"

text \<open>
  The loop of the partition, entered with \<open>ip\<close> and \<open>jp\<close> as the C code has \<open>pi\<close> and
  \<open>pj\<close>: both scans, then the exit when they have met, or the swap and the next round.
  It returns the array and the final \<open>pi\<close>.
\<close>

function part_loop ::
  "real list \<Rightarrow> real \<Rightarrow> nat \<Rightarrow> nat \<Rightarrow> nat list \<Rightarrow> nat \<Rightarrow> nat \<Rightarrow> nat list \<times> nat" where
  "part_loop v vp lo hi a ip jp =
     (let ip' = scan_up v vp a hi (ip + 1);
          jp' = scan_down v vp a lo (jp - 1)
      in if ip' \<ge> jp' then (a, ip') else part_loop v vp lo hi (swap_at ip' jp' a) ip' jp')"
  by pat_completeness auto
termination
  by (relation "measure (\<lambda>(v, vp, lo, hi, a, ip, jp). jp - ip)")
     (auto simp add: scan_up_def scan_down_def)

declare part_loop.simps [simp del]

text \<open>
  One partition of the segment \<open>pl .. pr\<close>: the median of three is moved to the middle,
  the pivot is parked at \<open>pr - 1\<close>, the loop runs, and the pivot is put at its final
  position, which is returned with the array.
\<close>

definition partition_at :: "real list \<Rightarrow> nat \<Rightarrow> nat \<Rightarrow> nat list \<Rightarrow> nat list \<times> nat" where
  "partition_at v pl pr a =
     (let pm = pl + (pr - pl) div 2;
          a1 = (if v ! (a ! pm) < v ! (a ! pl) then swap_at pm pl a else a);
          a2 = (if v ! (a1 ! pr) < v ! (a1 ! pm) then swap_at pr pm a1 else a1);
          a3 = (if v ! (a2 ! pm) < v ! (a2 ! pl) then swap_at pm pl a2 else a2);
          vp = v ! (a3 ! pm);
          a4 = swap_at pm (pr - 1) a3;
          r = part_loop v vp pl (pr - 1) a4 pl (pr - 1)
      in (swap_at (snd r) (pr - 1) (fst r), snd r))"

text \<open>The insertion sort of the segment \<open>pl .. pr\<close>.\<close>

function ins_shift :: "real list \<Rightarrow> real \<Rightarrow> nat \<Rightarrow> nat list \<Rightarrow> nat \<Rightarrow> nat list \<times> nat" where
  "ins_shift v vp pl a jp =
     (if jp > pl \<and> vp < v ! (a ! (jp - 1))
      then ins_shift v vp pl (a[jp := a ! (jp - 1)]) (jp - 1)
      else (a, jp))"
  by pat_completeness auto
termination
  by (relation "measure (\<lambda>(v, vp, pl, a, jp). jp)") auto

declare ins_shift.simps [simp del]

definition ins_step :: "real list \<Rightarrow> nat \<Rightarrow> nat \<Rightarrow> nat list \<Rightarrow> nat list" where
  "ins_step v pl ip a =
     (let vi = a ! ip;
          vp = v ! vi;
          r = ins_shift v vp pl a ip
      in (fst r)[snd r := vi])"

definition insertion_sort :: "real list \<Rightarrow> nat \<Rightarrow> nat \<Rightarrow> nat list \<Rightarrow> nat list" where
  "insertion_sort v pl pr a = fold (ins_step v pl) [pl + 1..<pr + 1] a"

text \<open>
  The heapsort of the \<open>n\<close> entries from position \<open>off\<close> on (\<open>aheapsort\<close>). The C code
  counts the heap from 1: its \<open>a[k]\<close> is the entry at position \<open>off + k - 1\<close>.
\<close>

function sift_down ::
  "real list \<Rightarrow> nat \<Rightarrow> nat \<Rightarrow> nat \<Rightarrow> nat list \<Rightarrow> nat \<Rightarrow> nat \<Rightarrow> nat list" where
  "sift_down v off n tmp a i j =
     (if 0 < j \<and> j \<le> n
      then (let j' = (if j < n \<and> v ! (a ! (off + j - 1)) < v ! (a ! (off + j)) then j + 1 else j)
            in if v ! tmp < v ! (a ! (off + j' - 1))
               then sift_down v off n tmp (a[off + i - 1 := a ! (off + j' - 1)]) j' (j' + j')
               else a[off + i - 1 := tmp])
      else a[off + i - 1 := tmp])"
  by pat_completeness auto
termination
  by (relation "measure (\<lambda>(v, off, n, tmp, a, i, j). n + 1 - j)") auto

declare sift_down.simps [simp del]

definition heapify_step :: "real list \<Rightarrow> nat \<Rightarrow> nat \<Rightarrow> nat \<Rightarrow> nat list \<Rightarrow> nat list" where
  "heapify_step v off n l a = sift_down v off n (a ! (off + l - 1)) a l (2 * l)"

definition extract_step :: "real list \<Rightarrow> nat \<Rightarrow> nat \<Rightarrow> nat list \<Rightarrow> nat list" where
  "extract_step v off m a =
     (let tmp = a ! (off + m - 1);
          a' = a[off + m - 1 := a ! off]
      in sift_down v off (m - 1) tmp a' 1 2)"

definition aheapsort :: "real list \<Rightarrow> nat \<Rightarrow> nat \<Rightarrow> nat list \<Rightarrow> nat list" where
  "aheapsort v off n a =
     fold (extract_step v off) (rev [2..<n + 1])
       (fold (heapify_step v off n) (rev [1..<n div 2 + 1]) a)"

text \<open>
  The sort of the segment \<open>pl .. pr\<close>. \<open>popped\<close> tells that the segment comes from the
  stack, where the depth budget is checked; the smaller part of a partition is sorted at
  once, without that check, and the larger part is pushed. The parts do not overlap, so
  the order in which they are sorted does not matter for the result.
\<close>

function aquicksort ::
  "real list \<Rightarrow> bool \<Rightarrow> int \<Rightarrow> nat \<Rightarrow> nat \<Rightarrow> nat list \<Rightarrow> nat list" where
  "aquicksort v popped cdepth pl pr a =
     (if popped \<and> cdepth < 0 then aheapsort v pl (pr - pl + 1) a
      else if 16 < pr - pl
      then (let r = partition_at v pl pr a;
                ip = snd r
            in if ip - pl < pr - ip
               then aquicksort v True (cdepth - 1) (ip + 1) pr
                      (aquicksort v False (cdepth - 1) pl (ip - 1) (fst r))
               else aquicksort v True (cdepth - 1) pl (ip - 1)
                      (aquicksort v False (cdepth - 1) (ip + 1) pr (fst r)))
      else insertion_sort v pl pr a)"
  by pat_completeness auto
termination
proof (relation "measure (\<lambda>(v, popped, cdepth, pl, pr, a). pr - pl)")
  have ge: "ip + 1 \<le> snd (part_loop v vp lo hi a ip jp)"
    for v vp lo hi a ip jp
  proof (induction v vp lo hi a ip jp rule: part_loop.induct)
    case (1 v vp lo hi a ip jp)
    let ?i = "scan_up v vp a hi (ip + 1)" and ?j = "scan_down v vp a lo (jp - 1)"
    have i: "ip + 1 \<le> ?i" by (simp add: scan_up_def)
    show ?case
    proof (cases "?j \<le> ?i")
      case True
      then have "part_loop v vp lo hi a ip jp = (a, ?i)"
        by (subst part_loop.simps) (simp add: Let_def)
      then show ?thesis using i by simp
    next
      case False
      then have "part_loop v vp lo hi a ip jp = part_loop v vp lo hi (swap_at ?i ?j a) ?i ?j"
        by (subst part_loop.simps) (simp add: Let_def)
      moreover have "?i + 1 \<le> snd (part_loop v vp lo hi (swap_at ?i ?j a) ?i ?j)"
        using False "1.IH" by simp
      ultimately show ?thesis using i by simp
    qed
  qed
  have le: "snd (part_loop v vp lo hi a ip jp) \<le> hi"
    if "ip < hi" and "jp \<le> hi" for v vp lo hi a ip jp
    using that
  proof (induction v vp lo hi a ip jp rule: part_loop.induct)
    case (1 v vp lo hi a ip jp)
    let ?i = "scan_up v vp a hi (ip + 1)" and ?j = "scan_down v vp a lo (jp - 1)"
    have "length (takeWhile (\<lambda>p. v ! (a ! p) < vp) [ip + 1..<hi]) \<le> length [ip + 1..<hi]"
      by (rule length_takeWhile_le)
    then have i: "?i \<le> hi" using "1.prems" by (simp add: scan_up_def)
    have j: "?j \<le> jp - 1" by (simp add: scan_down_def)
    show ?case
    proof (cases "?j \<le> ?i")
      case True
      then have "part_loop v vp lo hi a ip jp = (a, ?i)"
        by (subst part_loop.simps) (simp add: Let_def)
      then show ?thesis using i by simp
    next
      case False
      then have eq: "part_loop v vp lo hi a ip jp = part_loop v vp lo hi (swap_at ?i ?j a) ?i ?j"
        by (subst part_loop.simps) (simp add: Let_def)
      have "?i < hi" "?j \<le> hi"
        using False j "1.prems" by simp_all
      then have "snd (part_loop v vp lo hi (swap_at ?i ?j a) ?i ?j) \<le> hi"
        using False "1.IH" by simp
      then show ?thesis using eq by simp
    qed
  qed
  have bounds: "pl < snd (partition_at v pl pr a) \<and> snd (partition_at v pl pr a) < pr"
    if "16 < pr - pl" for v pl pr a
  proof -
    obtain vp a4 where e:
      "snd (partition_at v pl pr a) = snd (part_loop v vp pl (pr - 1) a4 pl (pr - 1))"
      by (simp add: partition_at_def Let_def)
    have "pl + 1 \<le> snd (part_loop v vp pl (pr - 1) a4 pl (pr - 1))" by (rule ge)
    moreover have "snd (part_loop v vp pl (pr - 1) a4 pl (pr - 1)) \<le> pr - 1"
      using that by (intro le) simp_all
    ultimately show ?thesis using e that by linarith
  qed
  show "wf (measure (\<lambda>(v, popped, cdepth, pl, pr, a). pr - pl))" by simp
  show "((v, False, cdepth - 1, pl, ip - 1, fst r), (v, popped, cdepth, pl, pr, a))
      \<in> measure (\<lambda>(v, popped, cdepth, pl, pr, a). pr - pl)"
    if "16 < pr - pl" "r = partition_at v pl pr a" "ip = snd r"
    for v popped cdepth pl pr a r ip
    using bounds[OF that(1), of v a] that by simp linarith
  show "((v, True, cdepth - 1, ip + 1, pr, q), (v, popped, cdepth, pl, pr, a))
      \<in> measure (\<lambda>(v, popped, cdepth, pl, pr, a). pr - pl)"
    if "16 < pr - pl" "r = partition_at v pl pr a" "ip = snd r"
    for v popped cdepth pl pr a r ip q
    using bounds[OF that(1), of v a] that by simp linarith
  show "((v, False, cdepth - 1, ip + 1, pr, fst r), (v, popped, cdepth, pl, pr, a))
      \<in> measure (\<lambda>(v, popped, cdepth, pl, pr, a). pr - pl)"
    if "16 < pr - pl" "r = partition_at v pl pr a" "ip = snd r"
    for v popped cdepth pl pr a r ip
    using bounds[OF that(1), of v a] that by simp linarith
  show "((v, True, cdepth - 1, pl, ip - 1, q), (v, popped, cdepth, pl, pr, a))
      \<in> measure (\<lambda>(v, popped, cdepth, pl, pr, a). pr - pl)"
    if "16 < pr - pl" "r = partition_at v pl pr a" "ip = snd r"
    for v popped cdepth pl pr a r ip q
    using bounds[OF that(1), of v a] that by simp linarith
qed

declare aquicksort.simps [simp del]

text \<open>
  \<open>np.argsort\<close> of a list of scores by that sort: the indices start in ascending order
  and the whole array is the first segment.
\<close>

definition np_quicksort_argsort :: "real list \<Rightarrow> nat list" where
  "np_quicksort_argsort scores =
     (let num = length scores
      in if num = 0 then []
         else aquicksort scores True (2 * int (npy_get_msb num)) 0 (num - 1) [0..<num])"

subsection \<open>Reference notions for the index and the scores\<close>

text \<open>The document frequency of a term: the number of documents that contain it.\<close>

definition df :: "string list \<Rightarrow> string \<Rightarrow> nat" where
  "df docs t = length (filter (\<lambda>d. t \<in> set (tokenize d)) docs)"

text \<open>
  The per-term score as the specification words it: the count of the term in the term
  list of the document over the length of that list (at least 1), times the logarithm of
  the number of documents over the document frequency plus one.
\<close>

definition spec_term_score :: "string list \<Rightarrow> string \<Rightarrow> nat \<Rightarrow> real" where
  "spec_term_score docs t i =
     (real (count_list (tokenize (docs ! i)) t) / real (max (length (tokenize (docs ! i))) 1))
       * ln (real (length docs) / real (df docs t + 1))"

text \<open>The vocabulary as the specification words it: the set of all terms of the corpus.\<close>

definition vocabulary :: "string list \<Rightarrow> string set" where
  "vocabulary docs = set (concat (map tokenize docs))"

text \<open>
  The aggregate score as the specification words it: the sum over the distinct query terms
  that are in the vocabulary.
\<close>

definition spec_aggregate :: "string list \<Rightarrow> string \<Rightarrow> nat \<Rightarrow> real" where
  "spec_aggregate docs query i =
     sum_list (map (\<lambda>t. spec_term_score docs t i)
       (remdups (filter (\<lambda>t. t \<in> vocabulary docs) (tokenize query))))"

text \<open>The aggregate score with every occurrence of a query term counted.\<close>

definition token_aggregate :: "string list \<Rightarrow> string \<Rightarrow> nat \<Rightarrow> real" where
  "token_aggregate docs query i =
     sum_list (map (\<lambda>t. real (count_list (tokenize query) t) * spec_term_score docs t i)
       (remdups (filter (\<lambda>t. t \<in> vocabulary docs) (tokenize query))))"

text \<open>The list of aggregate scores of a query, one per document.\<close>

definition scores_of :: "string list \<Rightarrow> string \<Rightarrow> real list" where
  "scores_of docs query =
     map (\<lambda>i. sum_list (map (\<lambda>t. spec_term_score docs t i)
                (filter (\<lambda>t. t \<in> vocabulary docs) (tokenize query)))) [0..<length docs]"

text \<open>The result record for a pair of a position in the ranking and a document index.\<close>

definition result_at :: "string list \<Rightarrow> real list \<Rightarrow> nat \<times> nat \<Rightarrow> search_result" where
  "result_at docs scores p =
     \<lparr> rank = fst p + 1, document = docs ! snd p, score = scores ! snd p, index = snd p \<rparr>"

text \<open>The document indices of the results of a search, in the order of the ranking.\<close>

definition result_indices :: "py_error + search_result list \<Rightarrow> py_error + nat list" where
  "result_indices r = (case r of Inl e \<Rightarrow> Inl e | Inr rs \<Rightarrow> Inr (map index rs))"

section \<open>DemandForecaster\<close>

subsection \<open>numpy helpers\<close>

text \<open>
  A float that may be non-finite. It is used for the few values that the source can make
  non-finite from finite inputs on a path that returns: the mean of an empty list and a
  quotient with a zero denominator. numpy gives \<open>nan\<close> or an infinity there, with a
  warning that the program suppresses, and no exception.
\<close>

datatype npfloat = Finite real | PosInf | NegInf | NaN

text \<open>The mean of a non-empty array, and \<open>np.mean\<close> on any array.\<close>

definition mean :: "real list \<Rightarrow> real" where
  "mean xs = sum_list xs / real (length xs)"

definition np_mean :: "real list \<Rightarrow> npfloat" where
  "np_mean xs = (if xs = [] then NaN else Finite (mean xs))"

text \<open>\<open>np.std\<close> of a non-empty array: the population standard deviation.\<close>

definition std :: "real list \<Rightarrow> real" where
  "std xs = sqrt (mean (map (\<lambda>x. (x - mean xs)\<^sup>2) xs))"

definition np_arange :: "nat \<Rightarrow> real list" where
  "np_arange n = map real [0..<n]"

text \<open>The division of two numpy floats.\<close>

definition np_divide :: "real \<Rightarrow> real \<Rightarrow> npfloat" where
  "np_divide a b =
     (if b \<noteq> 0 then Finite (a / b)
      else if a > 0 then PosInf else if a < 0 then NegInf else NaN)"

text \<open>Multiplication of a float by a positive constant.\<close>

definition np_scale :: "real \<Rightarrow> npfloat \<Rightarrow> npfloat" where
  "np_scale c v = (case v of Finite x \<Rightarrow> Finite (c * x) | PosInf \<Rightarrow> PosInf | NegInf \<Rightarrow> NegInf | NaN \<Rightarrow> NaN)"

text \<open>The comparisons \<open>v > c\<close> and \<open>v < c\<close> with a finite constant; both are false for \<open>nan\<close>.\<close>

definition np_greater :: "npfloat \<Rightarrow> real \<Rightarrow> bool" where
  "np_greater v c = (case v of Finite x \<Rightarrow> x > c | PosInf \<Rightarrow> True | NegInf \<Rightarrow> False | NaN \<Rightarrow> False)"

definition np_less :: "npfloat \<Rightarrow> real \<Rightarrow> bool" where
  "np_less v c = (case v of Finite x \<Rightarrow> x < c | PosInf \<Rightarrow> False | NegInf \<Rightarrow> True | NaN \<Rightarrow> False)"

text \<open>
  \<open>round(x, 2)\<close>: \<open>x\<close> times 100, rounded to the nearest integer with ties going to the
  even one, over 100. A non-finite value is returned as it is.
\<close>

definition rint :: "real \<Rightarrow> int" where
  "rint x =
     (let f = \<lfloor>x\<rfloor>; d = x - real_of_int f
      in if d < 1 / 2 then f else if d > 1 / 2 then f + 1 else if even f then f else f + 1)"

definition round2 :: "real \<Rightarrow> real" where
  "round2 x = real_of_int (rint (x * 100)) / 100"

definition np_round2 :: "npfloat \<Rightarrow> npfloat" where
  "np_round2 v = (case v of Finite x \<Rightarrow> Finite (round2 x) | PosInf \<Rightarrow> PosInf | NegInf \<Rightarrow> NegInf | NaN \<Rightarrow> NaN)"

subsection \<open>The trend fit\<close>

text \<open>
  The least-squares line through the points \<open>(xs ! i, ys ! i)\<close>, in closed form: the slope
  is the covariance of the two lists over the variance of the abscissae, and the line passes
  through the point of the two means.
\<close>

definition ols_slope :: "real list \<Rightarrow> real list \<Rightarrow> real" where
  "ols_slope xs ys =
     sum_list (map (\<lambda>(x, y). (x - mean xs) * (y - mean ys)) (zip xs ys))
       / sum_list (map (\<lambda>x. (x - mean xs)\<^sup>2) xs)"

definition ols_intercept :: "real list \<Rightarrow> real list \<Rightarrow> real" where
  "ols_intercept xs ys = mean ys - ols_slope xs ys * mean xs"

text \<open>
  The two statements \<open>x = np.arange(len(demand_values))\<close> and
  \<open>np.polyfit(x, demand_values, 1)\<close>, which returns the coefficients of the fitted line,
  slope first. \<open>np.polyfit\<close> raises \<open>TypeError\<close> on an empty \<open>x\<close>. It then divides each
  column of the design matrix by its norm, and the column of the abscissae has the norm
  \<open>sqrt (sum of x\<^sup>2)\<close>: when that is 0 the division leaves no number in the matrix and
  the least-squares solver raises \<open>LinAlgError\<close>. Otherwise, the abscissae being distinct,
  the result is the least-squares line.
\<close>

definition np_polyfit_arange :: "real list \<Rightarrow> py_error + real \<times> real" where
  "np_polyfit_arange ys =
     (let x = np_arange (length ys)
      in if x = [] then Inl TypeError
         else if sqrt (sum_list (map (\<lambda>v. v\<^sup>2) x)) = 0 then Inl LinAlgError
         else Inr (ols_slope x ys, ols_intercept x ys))"

text \<open>The sum of the squared residuals of the line \<open>a * x + b\<close> on the points.\<close>

definition sse :: "real list \<Rightarrow> real list \<Rightarrow> real \<Rightarrow> real \<Rightarrow> real" where
  "sse xs ys a b = sum_list (map (\<lambda>(x, y). (y - (a * x + b))\<^sup>2) (zip xs ys))"

subsection \<open>\<open>forecast\<close>\<close>

datatype trend_label = Increasing | Decreasing | Stable

datatype action_label = INCREASE | DECREASE | MAINTAIN

text \<open>
  Dates are day numbers; the source formats them as text. The rationale is a text built
  from the trend label and the growth rate; the model keeps these two values.
\<close>

record prediction =
  date :: int
  predicted_demand :: real
  lower_bound :: real
  upper_bound :: real

record metrics =
  historical_avg :: real
  forecast_avg :: npfloat
  growth_rate :: npfloat
  trend :: trend_label

record recommendations =
  action :: action_label
  target_stock :: npfloat
  reorder_point :: npfloat
  rationale :: "trend_label \<times> npfloat"

record forecast_result =
  sku_id :: string
  forecast_date :: int
  predictions :: "prediction list"
  metrics :: metrics
  recommendations :: recommendations

text \<open>The value of \<open>forecast_value\<close> in iteration \<open>i\<close> of the loop, after the floor at zero.\<close>

definition forecast_value :: "real \<Rightarrow> real \<Rightarrow> nat \<Rightarrow> nat \<Rightarrow> real" where
  "forecast_value avg_demand trend_coef n i = max 0 (avg_demand + trend_coef * real (n + i))"

definition make_prediction :: "real \<Rightarrow> real \<Rightarrow> real \<Rightarrow> nat \<Rightarrow> int \<Rightarrow> nat \<Rightarrow> prediction" where
  "make_prediction avg_demand std_demand trend_coef n last_date i =
     (let fv = forecast_value avg_demand trend_coef n i
      in \<lparr> date = last_date + int (i + 1),
           predicted_demand = round2 fv,
           lower_bound = round2 (max 0 (fv - 1.96 * std_demand)),
           upper_bound = round2 (fv + 1.96 * std_demand) \<rparr>)"

definition growth_rate_of :: "real list \<Rightarrow> npfloat" where
  "growth_rate_of demand_values =
     (if length demand_values > 1
      then np_scale 100 (np_divide (last demand_values - hd demand_values)
                                   (hd demand_values + 1 / 10 ^ 10))
      else Finite 0)"

text \<open>
  \<open>forecast(historical_data, sku_id, periods)\<close>; \<open>today\<close> is the day that
  \<open>datetime.now()\<close> returns. The mean and the deviation of an empty series are \<open>nan\<close> in
  the source and raise nothing; the model evaluates them once the trend fit has returned,
  which it does not for an empty series.
\<close>

definition forecast :: "(int \<times> real) list \<Rightarrow> string \<Rightarrow> int \<Rightarrow> int \<Rightarrow> py_error + forecast_result" where
  "forecast historical_data sku periods today =
     (let demand_values = map snd historical_data;
          dates = map fst historical_data
      in bind_err (np_polyfit_arange demand_values) (\<lambda>coefs.
         bind_err (py_last dates) (\<lambda>last_date.
         let avg_demand = mean demand_values;
             std_demand = std demand_values;
             trend_coef = fst coefs;
             trend_l = (if trend_coef > 0.1 then Increasing
                        else if trend_coef < - 0.1 then Decreasing else Stable);
             preds = map (make_prediction avg_demand std_demand trend_coef
                            (length demand_values) last_date) [0..<nat periods];
             growth = growth_rate_of demand_values;
             act = (if np_greater growth 15 then INCREASE
                    else if np_less growth (- 15) then DECREASE else MAINTAIN);
             f_avg = np_mean (map predicted_demand preds);
             target = np_scale 14 f_avg;
             reorder = np_scale 7 f_avg
         in Inr \<lparr> sku_id = sku,
                  forecast_date = today,
                  predictions = preds,
                  metrics = \<lparr> historical_avg = round2 avg_demand,
                              forecast_avg = np_round2 f_avg,
                              growth_rate = np_round2 growth,
                              trend = trend_l \<rparr>,
                  recommendations = \<lparr> action = act,
                                      target_stock = np_round2 target,
                                      reorder_point = np_round2 reorder,
                                      rationale = (trend_l, growth) \<rparr> \<rparr>)))"

text \<open>The point estimates of a forecast, in the order of the future steps.\<close>

definition point_estimates :: "py_error + forecast_result \<Rightarrow> py_error + real list" where
  "point_estimates r =
     (case r of Inl e \<Rightarrow> Inl e | Inr f \<Rightarrow> Inr (map predicted_demand (predictions f)))"

section \<open>SupplyChainIntelligence\<close>

text \<open>A row of the product table, with the two columns that \<open>forecast_demand\<close> reads.\<close>

record product =
  SKU :: string
  number_of_products_sold :: real

text \<open>
  \<open>_generate_historical_data(base_demand, days)\<close>. The draw \<open>np.random.normal(0, s)\<close> of
  iteration \<open>i\<close> is \<open>s * z i\<close> for a standard normal draw \<open>z i\<close>; numpy raises \<open>ValueError\<close>
  for a negative \<open>s\<close>.
\<close>

definition np_random_normal :: "real \<Rightarrow> real \<Rightarrow> py_error + real" where
  "np_random_normal s zi = (if s < 0 then Inl ValueError else Inr (s * zi))"

definition generate_historical_data ::
  "(nat \<Rightarrow> real) \<Rightarrow> int \<Rightarrow> real \<Rightarrow> nat \<Rightarrow> py_error + (int \<times> real) list" where
  "generate_historical_data z today base_demand days =
     (let dates = map (\<lambda>i. today - int (days - i)) [0..<days]
      in bind_err (map_err (\<lambda>i.
           let trend_v = base_demand * (1 + real i / real days * 0.2)
           in bind_err (np_random_normal (base_demand * 0.1) (z i)) (\<lambda>noise.
              Inr (max 0 (trend_v + noise)))) [0..<days]) (\<lambda>demand.
         Inr (zip dates demand)))"

text \<open>
  What \<open>forecast_demand\<close> returns: the dictionary with the single key \<open>error\<close>, or the
  forecast.
\<close>

datatype forecast_answer = ErrorRecord string | ForecastRecord forecast_result

definition forecast_demand ::
  "product list \<Rightarrow> (nat \<Rightarrow> real) \<Rightarrow> int \<Rightarrow> string \<Rightarrow> int \<Rightarrow> py_error + forecast_answer" where
  "forecast_demand frame z today sku days =
     (let rows = filter (\<lambda>r. SKU r = sku) frame
      in if rows = [] then Inr (ErrorRecord (''SKU '' @ sku @ '' not found''))
         else
           let row = hd rows;
               base_demand = number_of_products_sold row / 30
           in bind_err (generate_historical_data z today base_demand 90) (\<lambda>hist_data.
              bind_err (forecast hist_data sku days today) (\<lambda>fc.
              Inr (ForecastRecord fc))))"

section \<open>Properties of the search engine\<close>

subsection \<open>The index\<close>

lemma map_err_Inr:
  "(\<And>x. x \<in> set xs \<Longrightarrow> f x = Inr (g x)) \<Longrightarrow> map_err f xs = Inr (map g xs)"
  by (induction xs) simp_all

lemma counter_incr_same:
  "counter_incr t m t = Some ((case m t of None \<Rightarrow> 0 | Some c \<Rightarrow> c) + 1)"
  by (simp add: counter_incr_def)

lemma counter_incr_other: "t \<noteq> a \<Longrightarrow> counter_incr a m t = m t"
  by (simp add: counter_incr_def)

lemma fold_counter_incr_notin:
  "t \<notin> set ts \<Longrightarrow> fold counter_incr ts m t = m t"
  by (induction ts arbitrary: m) (simp_all add: counter_incr_other)

lemma fold_counter_incr_in:
  "distinct ts \<Longrightarrow> t \<in> set ts \<Longrightarrow>
     fold counter_incr ts m t = Some ((case m t of None \<Rightarrow> 0 | Some c \<Rightarrow> c) + 1)"
proof (induction ts arbitrary: m)
  case Nil
  then show ?case by simp
next
  case (Cons a ts)
  show ?case
  proof (cases "t = a")
    case True
    with Cons.prems have "t \<notin> set ts" by simp
    then have "fold counter_incr ts (counter_incr a m) t = counter_incr a m t"
      by (rule fold_counter_incr_notin)
    then show ?thesis using True
      by (simp add: counter_incr_same)
  next
    case False
    with Cons.prems have "t \<in> set ts" "distinct ts" by simp_all
    then show ?thesis using Cons.IH[of "counter_incr a m"] False
      by (simp add: counter_incr_other)
  qed
qed

lemma fold_index_doc_terms:
  "doc_terms_acc (fold index_doc docs s) = doc_terms_acc s @ map tokenize docs"
  by (induction docs arbitrary: s) (simp_all add: index_doc_def Let_def)

lemma fold_index_vocab:
  "vocab_set (fold index_doc docs s) = vocab_set s \<union> (\<Union>d\<in>set docs. set (tokenize d))"
  by (induction docs arbitrary: s) (auto simp add: index_doc_def Let_def)

lemma fold_index_doc_freq:
  "doc_freq_acc (fold index_doc docs s) t =
     (if df docs t = 0 then doc_freq_acc s t
      else Some ((case doc_freq_acc s t of None \<Rightarrow> 0 | Some c \<Rightarrow> c) + df docs t))"
proof (induction docs arbitrary: s)
  case Nil
  then show ?case by (simp add: df_def)
next
  case (Cons d docs)
  show ?case
  proof (cases "t \<in> set (tokenize d)")
    case True
    then have "doc_freq_acc (index_doc d s) t = Some ((case doc_freq_acc s t of None \<Rightarrow> 0 | Some c \<Rightarrow> c) + 1)"
      by (simp add: index_doc_def Let_def fold_counter_incr_in)
    then show ?thesis using True Cons.IH[of "index_doc d s"]
      by (simp add: df_def)
  next
    case False
    then have "doc_freq_acc (index_doc d s) t = doc_freq_acc s t"
      by (simp add: index_doc_def Let_def fold_counter_incr_notin)
    then show ?thesis using False Cons.IH[of "index_doc d s"]
      by (simp add: df_def)
  qed
qed

lemma engine_documents: "documents (DocumentSearchEngine docs) = docs"
  by (simp add: DocumentSearchEngine_def Let_def)

lemma engine_doc_terms: "doc_terms (DocumentSearchEngine docs) = map tokenize docs"
  by (simp add: DocumentSearchEngine_def Let_def build_index_def fold_index_doc_terms init_index_def)

lemma engine_vocab: "set (vocab (DocumentSearchEngine docs)) = (\<Union>d\<in>set docs. set (tokenize d))"
  by (simp add: DocumentSearchEngine_def Let_def build_index_def fold_index_vocab init_index_def)

lemma engine_doc_freq:
  "doc_freq (DocumentSearchEngine docs) t = (if df docs t = 0 then None else Some (df docs t))"
  by (simp add: DocumentSearchEngine_def Let_def build_index_def fold_index_doc_freq init_index_def)

lemma df_le: "df docs t \<le> length docs"
  by (simp add: df_def)

lemma df_pos_iff: "0 < df docs t \<longleftrightarrow> (\<exists>d\<in>set docs. t \<in> set (tokenize d))"
  by (simp add: df_def filter_empty_conv)


lemma engine_vocab_vocabulary: "set (vocab (DocumentSearchEngine docs)) = vocabulary docs"
  by (simp add: engine_vocab vocabulary_def)

lemma vocabulary_df: "t \<in> vocabulary docs \<longleftrightarrow> 0 < df docs t"
  by (simp add: vocabulary_def df_pos_iff)

subsection \<open>Scores and results of an engine made by the constructor\<close>

lemma py_truediv_tf:
  "py_truediv (int c) (max (int l) 1) = Inr (real c / real (max l 1))"
  by (auto simp add: py_truediv_def max_def)

lemma py_truediv_ratio:
  "py_truediv (int n) (int d + 1) = Inr (real n / real (d + 1))"
  by (simp add: py_truediv_def add.commute)

lemma tfidf_score_built:
  assumes "i < length docs"
  shows "tfidf_score (DocumentSearchEngine docs) t i = Inr (spec_term_score docs t i)"
proof -
  have "(case doc_freq (DocumentSearchEngine docs) t of None \<Rightarrow> 0 | Some c \<Rightarrow> c) = df docs t"
    by (simp add: engine_doc_freq)
  then show ?thesis using assms
    by (simp only: tfidf_score_def engine_doc_terms engine_documents py_index_def
        py_truediv_tf py_truediv_ratio bind_err_def spec_term_score_def
        length_map if_True nth_map sum.case)
qed

lemma doc_score_built:
  assumes "i < length docs"
  shows "doc_score (DocumentSearchEngine docs) qts i =
           Inr (sum_list (map (\<lambda>t. spec_term_score docs t i) (filter (\<lambda>t. t \<in> vocabulary docs) qts)))"
proof -
  have "map_err (\<lambda>term. tfidf_score (DocumentSearchEngine docs) term i)
          (filter (\<lambda>t. t \<in> vocabulary docs) qts)
        = Inr (map (\<lambda>t. spec_term_score docs t i) (filter (\<lambda>t. t \<in> vocabulary docs) qts))"
    by (rule map_err_Inr) (simp add: tfidf_score_built assms)
  then show ?thesis
    by (simp add: doc_score_def engine_vocab_vocabulary bind_err_def)
qed

lemma length_scores_of: "length (scores_of docs query) = length docs"
  by (simp add: scores_of_def)

lemma argsort_set: "argsort_spec srt \<Longrightarrow> set (srt scores) = {0..<length scores}"
  by (simp add: argsort_spec_def)

lemma argsort_length:
  assumes "argsort_spec srt"
  shows "length (srt scores) = length scores"
proof -
  have "distinct (srt scores)" using assms by (simp add: argsort_spec_def)
  then have "length (srt scores) = card (set (srt scores))"
    by (simp add: distinct_card)
  then show ?thesis by (simp add: argsort_set[OF assms])
qed

lemma argsort_sorted: "argsort_spec srt \<Longrightarrow> sorted (map (\<lambda>i. scores ! i) (srt scores))"
  by (simp add: argsort_spec_def)

lemma argsort_nil: "argsort_spec srt \<Longrightarrow> srt [] = []"
  using argsort_length[of srt "[]"] by simp

lemma argsort_single:
  assumes "argsort_spec srt"
  shows "srt [x] = [0]"
proof -
  have l: "length (srt [x]) = 1" using argsort_length[OF assms, of "[x]"] by simp
  then obtain y where y: "srt [x] = [y]"
    by (cases "srt [x]") simp_all
  have "set (srt [x]) = {0}" using argsort_set[OF assms, of "[x]"] by simp
  then show ?thesis using y by simp
qed

lemma stable_argsort_spec: "argsort_spec stable_argsort"
  by (simp add: argsort_spec_def stable_argsort_def)

lemma set_py_slice_from: "set (py_slice_from k xs) \<subseteq> set xs"
  by (simp add: py_slice_from_def Let_def set_drop_subset)

lemma search_indices_valid:
  assumes "set (srt (scores_of docs query)) \<subseteq> {0..<length docs}"
  shows "search srt (DocumentSearchEngine docs) query top_k =
     Inr (map (result_at docs (scores_of docs query))
            (enumerate 0 (rev (py_slice_from (- top_k) (srt (scores_of docs query))))))"
proof -
  let ?e = "DocumentSearchEngine docs"
  let ?sc = "scores_of docs query"
  let ?tops = "rev (py_slice_from (- top_k) (srt ?sc))"
  have sc: "map_err (doc_score ?e (tokenize query)) [0..<length docs] = Inr ?sc"
    unfolding scores_of_def by (rule map_err_Inr) (simp add: doc_score_built)
  have idx: "\<And>p. p \<in> set (enumerate 0 ?tops) \<Longrightarrow> snd p < length docs"
  proof -
    fix p assume "p \<in> set (enumerate 0 ?tops)"
    then have "snd p \<in> snd ` set (enumerate 0 ?tops)"
      by (rule imageI)
    then have "snd p \<in> set ?tops"
      by (simp only: set_map[symmetric] map_snd_enumerate)
    then have "snd p \<in> set (srt ?sc)"
      using set_py_slice_from[of "- top_k" "srt ?sc"] by auto
    then show "snd p < length docs"
      using assms by auto
  qed
  have "map_err (make_result ?e ?sc) (enumerate 0 ?tops)
          = Inr (map (result_at docs ?sc) (enumerate 0 ?tops))"
  proof (rule map_err_Inr)
    fix p assume "p \<in> set (enumerate 0 ?tops)"
    then have "snd p < length docs" by (rule idx)
    then show "make_result ?e ?sc p = Inr (result_at docs ?sc p)"
      by (cases p) (simp add: make_result_def result_at_def engine_documents py_index_def
          bind_err_def length_scores_of)
  qed
  then show ?thesis
    by (simp add: search_def Let_def engine_documents sc bind_err_def)
qed

lemma search_built:
  assumes "argsort_spec srt"
  shows "search srt (DocumentSearchEngine docs) query top_k =
     Inr (map (result_at docs (scores_of docs query))
            (enumerate 0 (rev (py_slice_from (- top_k) (srt (scores_of docs query))))))"
  by (rule search_indices_valid) (simp add: argsort_set[OF assms] length_scores_of)

lemma sum_list_count:
  fixes f :: "'a \<Rightarrow> real"
  shows "sum_list (map f xs) = (\<Sum>t\<leftarrow>remdups xs. real (count_list xs t) * f t)"
proof -
  have "sum_list (map f xs) = (\<Sum>t\<in>set xs. real (count_list xs t) * f t)"
  proof (induction xs)
    case Nil
    then show ?case by simp
  next
    case (Cons x xs)
    let ?g = "\<lambda>t. real (count_list xs t) * f t"
    have fin: "finite (set xs)" by simp
    have "(\<Sum>t\<in>set (x # xs). real (count_list (x # xs) t) * f t)
            = (\<Sum>t\<in>insert x (set xs). ?g t + (if t = x then f t else 0))"
      by (intro sum.cong) (auto simp add: algebra_simps)
    also have "\<dots> = (\<Sum>t\<in>insert x (set xs). ?g t) + (\<Sum>t\<in>insert x (set xs). if t = x then f t else 0)"
      by (simp add: sum.distrib)
    also have "(\<Sum>t\<in>insert x (set xs). if t = x then f t else 0) = f x"
      by (simp add: sum.delta')
    also have "(\<Sum>t\<in>insert x (set xs). ?g t) = (\<Sum>t\<in>set xs. ?g t)"
    proof (cases "x \<in> set xs")
      case True
      then show ?thesis by (simp add: insert_absorb)
    next
      case False
      then have "count_list xs x = 0" by (simp add: count_list_0_iff)
      then show ?thesis using False by simp
    qed
    finally show ?case using Cons.IH by simp
  qed
  also have "\<dots> = (\<Sum>t\<leftarrow>remdups xs. real (count_list xs t) * f t)"
    by (simp add: sum_list_distinct_conv_sum_set)
  finally show ?thesis .
qed

lemma count_list_filter:
  "P t \<Longrightarrow> count_list (filter P xs) t = count_list xs t"
  by (induction xs) auto

lemma doc_score_token_aggregate:
  assumes "i < length docs"
  shows "doc_score (DocumentSearchEngine docs) (tokenize query) i = Inr (token_aggregate docs query i)"
proof -
  let ?P = "\<lambda>t. t \<in> vocabulary docs"
  let ?f = "\<lambda>t. spec_term_score docs t i"
  have "sum_list (map ?f (filter ?P (tokenize query)))
          = (\<Sum>t\<leftarrow>remdups (filter ?P (tokenize query)).
               real (count_list (filter ?P (tokenize query)) t) * ?f t)"
    by (rule sum_list_count)
  also have "\<dots> = (\<Sum>t\<leftarrow>remdups (filter ?P (tokenize query)).
               real (count_list (tokenize query) t) * ?f t)"
    by (rule arg_cong[where f = sum_list], rule map_cong) (simp_all add: count_list_filter)
  finally show ?thesis using assms
    by (simp add: doc_score_built token_aggregate_def)
qed

lemma count_list_distinct:
  "distinct xs \<Longrightarrow> x \<in> set xs \<Longrightarrow> count_list xs x = 1"
  by (induction xs) auto

lemma token_aggregate_distinct:
  assumes "distinct (tokenize query)"
  shows "token_aggregate docs query i = spec_aggregate docs query i"
proof -
  have "\<And>t. t \<in> set (tokenize query) \<Longrightarrow> count_list (tokenize query) t = 1"
    using assms by (simp add: count_list_distinct)
  then show ?thesis
    unfolding token_aggregate_def spec_aggregate_def
    by (intro arg_cong[where f = sum_list] map_cong) auto
qed

subsection \<open>Ranking\<close>

lemma sort_key_const:
  "(\<And>x. x \<in> set xs \<Longrightarrow> f x = c) \<Longrightarrow> sort_key f xs = xs"
proof (induction xs)
  case Nil
  then show ?case by simp
next
  case (Cons x xs)
  then have "sort_key f xs = xs" by simp
  moreover have "insort_key f x xs = x # xs"
    using Cons.prems by (cases xs) simp_all
  ultimately show ?case by simp
qed

lemma engine_after_same: "engine_after srt e calls = e"
  by (induction calls arbitrary: e) (simp_all add: search_st_def split: prod.splits)

lemma length_py_slice_from_pos:
  "0 < k \<Longrightarrow> length (py_slice_from (- k) xs) = min (nat k) (length xs)"
  by (auto simp add: py_slice_from_def Let_def)

lemma map_score_results:
  "map score (map (result_at docs sc) (enumerate 0 tops)) = map (\<lambda>i. sc ! i) tops"
proof -
  have "map score (map (result_at docs sc) (enumerate 0 tops))
          = map ((\<lambda>i. sc ! i) \<circ> snd) (enumerate 0 tops)"
    by (simp add: result_at_def comp_def)
  also have "\<dots> = map (\<lambda>i. sc ! i) (map snd (enumerate 0 tops))"
    by (simp only: map_map)
  finally show ?thesis by (simp only: map_snd_enumerate)
qed

lemma search_positive_k:
  assumes "argsort_spec srt" and "0 < top_k"
  shows "\<exists>rs. search srt (DocumentSearchEngine docs) query top_k = Inr rs
           \<and> length rs = min (nat top_k) (length docs)
           \<and> sorted (rev (map score rs))"
proof -
  let ?sc = "scores_of docs query"
  let ?tops = "rev (py_slice_from (- top_k) (srt ?sc))"
  let ?rs = "map (result_at docs ?sc) (enumerate 0 ?tops)"
  have "length ?rs = min (nat top_k) (length docs)"
    using assms(2)
    by (simp add: length_py_slice_from_pos argsort_length[OF assms(1)] length_scores_of)
  moreover have "sorted (rev (map score ?rs))"
  proof -
    have "rev (map score ?rs) = map (\<lambda>i. ?sc ! i) (py_slice_from (- top_k) (srt ?sc))"
      by (simp only: map_score_results rev_map rev_rev_ident)
    also have "\<dots> = py_slice_from (- top_k) (map (\<lambda>i. ?sc ! i) (srt ?sc))"
      by (simp add: py_slice_from_def Let_def drop_map)
    finally show ?thesis
      using argsort_sorted[OF assms(1), of ?sc]
      by (simp add: py_slice_from_def Let_def sorted_wrt_drop)
  qed
  ultimately show ?thesis by (simp add: search_built[OF assms(1)])
qed

lemma scores_of_unknown:
  assumes "set (tokenize query) \<inter> vocabulary docs = {}"
  shows "scores_of docs query = replicate (length docs) 0"
proof -
  have "filter (\<lambda>t. t \<in> vocabulary docs) (tokenize query) = []"
    using assms by (auto simp add: filter_empty_conv)
  then show ?thesis
    by (simp add: scores_of_def map_replicate_const)
qed

lemma stable_argsort_replicate: "stable_argsort (replicate n c) = [0..<n]"
proof -
  have "sort_key (\<lambda>i. replicate n c ! i) [0..<n] = [0..<n]"
    by (rule sort_key_const[where c = c]) simp
  then show ?thesis by (simp add: stable_argsort_def)
qed

lemma np_quicksort_argsort_18_ties:
  "np_quicksort_argsort (replicate 18 0)
     = [0, 15, 14, 13, 12, 11, 10, 9, 8, 7, 6, 5, 4, 3, 2, 1, 16, 17]"
  by code_simp

subsection \<open>Tokens of the example texts\<close>

lemma tok_great: "tokenize ''great'' = [''great'']"
  by (simp add: tokenize_def is_word_char_def lower_char_def)

lemma tok_great2: "tokenize ''great great'' = [''great'', ''great'']"
  by (simp add: tokenize_def is_word_char_def lower_char_def)

lemma tok_cats: "tokenize ''cats are great'' = [''cats'', ''are'', ''great'']"
  by (simp add: tokenize_def is_word_char_def lower_char_def)


lemma tok_zebra: "tokenize ''zebra'' = [''zebra'']"
  by (simp add: tokenize_def is_word_char_def lower_char_def)

lemma tok_fish: "tokenize ''fish swim'' = [''fish'', ''swim'']"
  by (simp add: tokenize_def is_word_char_def lower_char_def)

lemma tok_dogs: "tokenize ''dogs are great too'' = [''dogs'', ''are'', ''great'', ''too'']"
  by (simp add: tokenize_def is_word_char_def lower_char_def)

subsection \<open>Claims about the search engine\<close>

text \<open>
  Claim C2, at the input where the code departs from it: \<open>top_k\<close> is documented as the
  number of results to return, and the slice \<open>[-top_k:]\<close> is the whole ranking when
  \<open>top_k\<close> is 0. Whatever sort \<open>np.argsort\<close> runs, a search for zero results on a corpus
  of one document returns that document, which is more than \<open>min(0, 1)\<close> results.
\<close>

theorem search_top_k_zero_returns_all:
  assumes "argsort_spec srt"
  shows "search srt (DocumentSearchEngine [''cats are great'']) ''great'' 0
     = Inr [\<lparr> rank = 1, document = ''cats are great'', score = 1 / 3 * ln (1 / 2), index = 0 \<rparr>]"
proof -
  have sc: "scores_of [''cats are great''] ''great'' = [1 / 3 * ln (1 / 2)]"
    by (simp add: scores_of_def tok_great tok_cats vocabulary_def spec_term_score_def df_def)
  show ?thesis
    by (simp add: search_built[OF assms] sc argsort_single[OF assms] py_slice_from_def
        result_at_def enumerate_eq_zip)
qed

theorem search_top_k_zero_returns_all_witness:
  "argsort_spec stable_argsort
   \<and> search stable_argsort (DocumentSearchEngine [''cats are great'']) ''great'' 0
     = Inr [\<lparr> rank = 1, document = ''cats are great'', score = 1 / 3 * ln (1 / 2), index = 0 \<rparr>]"
  using stable_argsort_spec search_top_k_zero_returns_all[OF stable_argsort_spec] by simp

text \<open>
  Claim C3 as stated fails: the aggregate score is not the sum over the distinct query
  terms. On the corpus of the single document \<open>great\<close> the query \<open>great great\<close> scores
  twice the weight of its only distinct term.
\<close>

theorem aggregate_counts_repeated_terms:
  "doc_score (DocumentSearchEngine [''great'']) (tokenize ''great great'') 0
     \<noteq> Inr (spec_aggregate [''great''] ''great great'' 0)"
  by (simp add: doc_score_built spec_aggregate_def tok_great tok_great2 vocabulary_def
      spec_term_score_def df_def)

text \<open>
  Claim C3, amended: for every corpus, query, term and document index, the per-term score
  is the count of the term in the term list of the document over the length of that list
  (at least 1), times \<open>ln (N / (df + 1))\<close>, with \<open>N\<close> the number of documents and \<open>df\<close>
  the number of documents containing the term (0 for an unseen term); and the aggregate
  score of the document is the sum of that value over the query tokens that are in the
  vocabulary, every occurrence of a token counted: each distinct query term of the
  vocabulary contributes its score times the number of its occurrences in the query, and
  terms outside the vocabulary contribute nothing.
\<close>

theorem tfidf_and_aggregate_scores:
  assumes "i < length docs"
  shows "tfidf_score (DocumentSearchEngine docs) t i = Inr (spec_term_score docs t i)
       \<and> doc_score (DocumentSearchEngine docs) (tokenize query) i
           = Inr (token_aggregate docs query i)"
  using assms by (simp add: tfidf_score_built doc_score_token_aggregate)

theorem tfidf_and_aggregate_scores_witness:
  "0 < length [''great'']
   \<and> tfidf_score (DocumentSearchEngine [''great'']) ''great'' 0 = Inr (ln (1 / 2))
   \<and> doc_score (DocumentSearchEngine [''great'']) (tokenize ''great great'') 0
       = Inr (2 * ln (1 / 2))"
  using tfidf_and_aggregate_scores[of 0 "[''great'']" "''great''" "''great great''"]
  by (simp add: token_aggregate_def tok_great tok_great2 vocabulary_def spec_term_score_def
      df_def)

text \<open>
  Claim C5: on an engine built from the empty document collection, \<open>search\<close> returns the
  empty list of results for every query and every \<open>top_k\<close>, and raises nothing, whatever
  sort \<open>np.argsort\<close> runs.
\<close>

theorem search_empty_corpus:
  assumes "argsort_spec srt"
  shows "search srt (DocumentSearchEngine []) query top_k = Inr []"
  by (simp add: search_built[OF assms] scores_of_def argsort_nil[OF assms] py_slice_from_def)

theorem search_empty_corpus_witness:
  "argsort_spec stable_argsort
   \<and> search stable_argsort (DocumentSearchEngine []) ''great'' 3 = Inr []"
  using stable_argsort_spec search_empty_corpus[OF stable_argsort_spec, of "''great''" 3]
  by simp

text \<open>
  Claim C6 as stated fails: the results of a query without a known term do not come in a
  tie-break order by document index. On a corpus of 18 documents, none of which contains
  the query term, all scores are 0; numpy's default sort leaves the 18 tied indices in the
  order 0, 15, 14, ..., 1, 16, 17, and the three results of \<open>search(query, 3)\<close> are the
  documents 17, 16 and 1, not 17, 16 and 15.
\<close>

theorem tied_results_not_in_index_order:
  "result_indices (search np_quicksort_argsort
       (DocumentSearchEngine (replicate 18 ''fish swim'')) ''zebra'' 3) = Inr [17, 16, 1]
   \<and> result_indices (search np_quicksort_argsort
       (DocumentSearchEngine (replicate 18 ''fish swim'')) ''zebra'' 3) \<noteq> Inr [17, 16, 15]"
proof -
  let ?docs = "replicate 18 ''fish swim''"
  have un: "set (tokenize ''zebra'') \<inter> vocabulary ?docs = {}"
    by (simp add: vocabulary_def tok_zebra tok_fish)
  have sc: "scores_of ?docs ''zebra'' = replicate 18 0"
    using scores_of_unknown[OF un] by simp
  have valid: "set (np_quicksort_argsort (scores_of ?docs ''zebra'')) \<subseteq> {0..<length ?docs}"
    by (simp add: sc np_quicksort_argsort_18_ties)
  have "search np_quicksort_argsort (DocumentSearchEngine ?docs) ''zebra'' 3
          = Inr (map (result_at ?docs (replicate 18 0))
                  (enumerate 0 (rev (py_slice_from (- 3)
                     [0, 15, 14, 13, 12, 11, 10, 9, 8, 7, 6, 5, 4, 3, 2, 1, 16, 17]))))"
    using search_indices_valid[of np_quicksort_argsort ?docs "''zebra''" 3, OF valid]
    by (simp only: sc np_quicksort_argsort_18_ties)
  then have "result_indices (search np_quicksort_argsort (DocumentSearchEngine ?docs) ''zebra'' 3)
          = Inr [17, 16, 1]"
    by (simp add: result_indices_def result_at_def py_slice_from_def enumerate_eq_zip comp_def)
  then show ?thesis by simp
qed

text \<open>
  Claim C6, amended: when no token of the query is in the vocabulary, the aggregate score
  of every document is exactly 0 and \<open>search\<close> returns normally, whatever sort
  \<open>np.argsort\<close> runs: the results are the documents that the slice selects, each with the
  score 0, in the reverse of the order in which the sort leaves the indices of the equal
  scores. No tie-break rule fixes that order.
\<close>

theorem search_unknown_terms:
  assumes "argsort_spec srt"
    and "set (tokenize query) \<inter> set (vocab (DocumentSearchEngine docs)) = {}"
  shows "map (doc_score (DocumentSearchEngine docs) (tokenize query)) [0..<length docs]
           = replicate (length docs) (Inr 0)
       \<and> search srt (DocumentSearchEngine docs) query top_k
           = Inr (map (\<lambda>p. \<lparr> rank = fst p + 1, document = docs ! snd p, score = 0, index = snd p \<rparr>)
                   (enumerate 0 (rev (py_slice_from (- top_k) (srt (replicate (length docs) 0))))))"
proof -
  have un: "set (tokenize query) \<inter> vocabulary docs = {}"
    using assms(2) by (simp add: engine_vocab_vocabulary)
  then have flt: "filter (\<lambda>t. t \<in> vocabulary docs) (tokenize query) = []"
    by (auto simp add: filter_empty_conv)
  have sc: "scores_of docs query = replicate (length docs) 0"
    using un by (rule scores_of_unknown)
  have "map (doc_score (DocumentSearchEngine docs) (tokenize query)) [0..<length docs]
          = map (\<lambda>i. Inr 0) [0..<length docs]"
    by (rule map_cong) (simp_all add: doc_score_built flt)
  then have first: "map (doc_score (DocumentSearchEngine docs) (tokenize query)) [0..<length docs]
          = replicate (length docs) (Inr 0)"
    by (simp add: map_replicate_const)
  let ?tops = "rev (py_slice_from (- top_k) (srt (replicate (length docs) 0)))"
  have "map (result_at docs (replicate (length docs) 0)) (enumerate 0 ?tops)
          = map (\<lambda>p. \<lparr> rank = fst p + 1, document = docs ! snd p, score = 0, index = snd p \<rparr>)
              (enumerate 0 ?tops)"
  proof (rule map_cong)
    fix p assume "p \<in> set (enumerate 0 ?tops)"
    then have "snd p \<in> snd ` set (enumerate 0 ?tops)"
      by (rule imageI)
    then have "snd p \<in> set ?tops"
      by (simp only: set_map[symmetric] map_snd_enumerate)
    then have "snd p \<in> set (srt (replicate (length docs) 0))"
      using set_py_slice_from[of "- top_k" "srt (replicate (length docs) 0)"] by auto
    then have "snd p < length docs"
      by (simp add: argsort_set[OF assms(1)])
    then show "result_at docs (replicate (length docs) 0) p
        = \<lparr> rank = fst p + 1, document = docs ! snd p, score = 0, index = snd p \<rparr>"
      by (simp add: result_at_def)
  qed simp
  then have "search srt (DocumentSearchEngine docs) query top_k
          = Inr (map (\<lambda>p. \<lparr> rank = fst p + 1, document = docs ! snd p, score = 0, index = snd p \<rparr>)
                   (enumerate 0 ?tops))"
    by (simp add: search_built[OF assms(1)] sc)
  with first show ?thesis by simp
qed

theorem search_unknown_terms_witness:
  "argsort_spec stable_argsort
   \<and> set (tokenize ''zebra'')
       \<inter> set (vocab (DocumentSearchEngine [''cats are great'', ''fish swim''])) = {}
   \<and> search stable_argsort (DocumentSearchEngine [''cats are great'', ''fish swim'']) ''zebra'' 3
       = Inr [\<lparr> rank = 1, document = ''fish swim'', score = 0, index = 1 \<rparr>,
              \<lparr> rank = 2, document = ''cats are great'', score = 0, index = 0 \<rparr>]"
proof -
  have h: "set (tokenize ''zebra'')
             \<inter> set (vocab (DocumentSearchEngine [''cats are great'', ''fish swim''])) = {}"
    by (simp add: engine_vocab_vocabulary vocabulary_def tok_zebra tok_cats tok_fish)
  have r: "stable_argsort (replicate (length [''cats are great'', ''fish swim'']) 0) = [0, 1]"
    by (simp add: stable_argsort_def)
  have s: "search stable_argsort (DocumentSearchEngine [''cats are great'', ''fish swim'']) ''zebra'' 3
      = Inr (map (\<lambda>p. \<lparr> rank = fst p + 1, document = [''cats are great'', ''fish swim''] ! snd p,
                         score = 0, index = snd p \<rparr>)
              (enumerate 0 (rev (py_slice_from (- 3)
                 (stable_argsort (replicate (length [''cats are great'', ''fish swim'']) 0))))))"
    using search_unknown_terms[OF stable_argsort_spec h, of 3] by (rule conjunct2)
  have res: "search stable_argsort (DocumentSearchEngine [''cats are great'', ''fish swim'']) ''zebra'' 3
       = Inr [\<lparr> rank = 1, document = ''fish swim'', score = 0, index = 1 \<rparr>,
              \<lparr> rank = 2, document = ''cats are great'', score = 0, index = 0 \<rparr>]"
    unfolding s r by (simp add: py_slice_from_def enumerate_eq_zip)
  from stable_argsort_spec h res show ?thesis by blast
qed

text \<open>
  Claim C7: after the index is built, every term of the vocabulary has a document
  frequency that is positive and at most the number of documents; \<open>search\<close> assigns no
  attribute of the engine, so this holds after any sequence of searches.
\<close>

theorem doc_freq_invariant:
  assumes "t \<in> set (vocab (engine_after srt (DocumentSearchEngine docs) calls))"
  shows "\<exists>c. doc_freq (engine_after srt (DocumentSearchEngine docs) calls) t = Some c
           \<and> 0 < c
           \<and> c \<le> length (documents (engine_after srt (DocumentSearchEngine docs) calls))"
proof -
  have "0 < df docs t"
    using assms by (simp add: engine_after_same engine_vocab_vocabulary vocabulary_df)
  then show ?thesis
    by (simp add: engine_after_same engine_doc_freq engine_documents df_le)
qed

theorem doc_freq_invariant_witness:
  "''great'' \<in> set (vocab (engine_after stable_argsort
       (DocumentSearchEngine [''cats are great'', ''dogs are great too'']) [(''great'', 3)]))
   \<and> doc_freq (engine_after stable_argsort
       (DocumentSearchEngine [''cats are great'', ''dogs are great too'']) [(''great'', 3)]) ''great''
       = Some 2"
proof -
  have h: "''great'' \<in> set (vocab (engine_after stable_argsort
       (DocumentSearchEngine [''cats are great'', ''dogs are great too'']) [(''great'', 3)]))"
    by (simp add: engine_after_same engine_vocab_vocabulary vocabulary_def tok_cats tok_dogs)
  show ?thesis
    using h doc_freq_invariant[OF h]
    by (simp add: engine_after_same engine_doc_freq df_def tok_cats tok_dogs)
qed

text \<open>
  Claim C10: there are a document collection and a query for which \<open>search\<close> returns a
  result with a strictly negative score. The corpus is the single document \<open>great\<close> and the
  query is its only term: the term occurs in every one of the \<open>N = 1\<close> documents, so its
  inverse document frequency is \<open>ln (1 / 2)\<close>. This holds whatever sort \<open>np.argsort\<close>
  runs.
\<close>

theorem search_negative_score:
  assumes "argsort_spec srt"
  shows "search srt (DocumentSearchEngine [''great'']) ''great'' 1
     = Inr [\<lparr> rank = 1, document = ''great'', score = ln (1 / 2), index = 0 \<rparr>]
   \<and> ln (1 / 2) < (0::real)"
proof -
  have sc: "scores_of [''great''] ''great'' = [ln (1 / 2)]"
    by (simp add: scores_of_def tok_great vocabulary_def spec_term_score_def df_def)
  show ?thesis
    by (simp add: search_built[OF assms] sc argsort_single[OF assms] py_slice_from_def
        result_at_def enumerate_eq_zip)
qed

theorem search_negative_score_witness:
  "argsort_spec stable_argsort
   \<and> search stable_argsort (DocumentSearchEngine [''great'']) ''great'' 1
     = Inr [\<lparr> rank = 1, document = ''great'', score = ln (1 / 2), index = 0 \<rparr>]"
  using stable_argsort_spec search_negative_score[OF stable_argsort_spec] by simp

section \<open>Properties of the forecaster\<close>

subsection \<open>The least-squares line\<close>

lemma least_squares_sum:
  fixes x y :: "nat \<Rightarrow> real"
  assumes n: "0 < n"
    and xbar: "xbar = (\<Sum>i<n. x i) / real n"
    and ybar: "ybar = (\<Sum>i<n. y i) / real n"
    and sxx: "(\<Sum>i<n. (x i - xbar)\<^sup>2) \<noteq> 0"
    and a: "a = (\<Sum>i<n. (x i - xbar) * (y i - ybar)) / (\<Sum>i<n. (x i - xbar)\<^sup>2)"
    and b: "b = ybar - a * xbar"
  shows "(\<Sum>i<n. (y i - (a * x i + b))\<^sup>2) \<le> (\<Sum>i<n. (y i - (a' * x i + b'))\<^sup>2)"
proof -
  define r where "r i = y i - (a * x i + b)" for i
  define d where "d i = (a - a') * x i + (b - b')" for i
  have nz: "real n \<noteq> 0" using n by simp
  have sx: "(\<Sum>i<n. (x i - xbar)) = 0"
    using nz by (simp add: sum_subtractf xbar)
  have sy: "(\<Sum>i<n. (y i - ybar)) = 0"
    using nz by (simp add: sum_subtractf ybar)
  have r_alt: "r i = (y i - ybar) - a * (x i - xbar)" for i
    by (simp add: r_def b algebra_simps)
  have "(\<Sum>i<n. r i) = (\<Sum>i<n. (y i - ybar)) - (\<Sum>i<n. a * (x i - xbar))"
    by (simp only: r_alt sum_subtractf)
  also have "(\<Sum>i<n. a * (x i - xbar)) = a * (\<Sum>i<n. (x i - xbar))"
    by (rule sum_distrib_left[symmetric])
  finally have "(\<Sum>i<n. r i) = (\<Sum>i<n. (y i - ybar)) - a * (\<Sum>i<n. (x i - xbar))" .
  then have sr: "(\<Sum>i<n. r i) = 0"
    by (simp only: sx sy mult_zero_right diff_self)
  have "(\<Sum>i<n. r i * (x i - xbar))
          = (\<Sum>i<n. (x i - xbar) * (y i - ybar)) - a * (\<Sum>i<n. (x i - xbar)\<^sup>2)"
    by (simp add: r_alt sum_subtractf[symmetric] sum_distrib_left power2_eq_square algebra_simps)
  also have "\<dots> = 0"
    using sxx by (simp add: a)
  finally have srxc: "(\<Sum>i<n. r i * (x i - xbar)) = 0" .
  have "(\<Sum>i<n. r i * x i) = (\<Sum>i<n. r i * (x i - xbar)) + xbar * (\<Sum>i<n. r i)"
    by (simp add: sum_distrib_left sum.distrib[symmetric] algebra_simps)
  then have srx: "(\<Sum>i<n. r i * x i) = 0"
    by (simp add: srxc sr)
  have srd: "(\<Sum>i<n. r i * d i) = 0"
  proof -
    have "(\<Sum>i<n. r i * d i) = (a - a') * (\<Sum>i<n. r i * x i) + (b - b') * (\<Sum>i<n. r i)"
      by (simp add: d_def sum_distrib_left sum.distrib[symmetric] algebra_simps)
    then show ?thesis by (simp add: srx sr)
  qed
  have "(\<Sum>i<n. (y i - (a' * x i + b'))\<^sup>2) = (\<Sum>i<n. (r i + d i)\<^sup>2)"
    by (intro sum.cong) (simp_all add: r_def d_def algebra_simps)
  also have "\<dots> = (\<Sum>i<n. (r i)\<^sup>2) + 2 * (\<Sum>i<n. r i * d i) + (\<Sum>i<n. (d i)\<^sup>2)"
    by (simp add: power2_sum sum.distrib sum_distrib_left algebra_simps)
  also have "\<dots> = (\<Sum>i<n. (r i)\<^sup>2) + (\<Sum>i<n. (d i)\<^sup>2)"
    by (simp add: srd)
  finally have "(\<Sum>i<n. (y i - (a' * x i + b'))\<^sup>2) = (\<Sum>i<n. (r i)\<^sup>2) + (\<Sum>i<n. (d i)\<^sup>2)" .
  moreover have "0 \<le> (\<Sum>i<n. (d i)\<^sup>2)"
    by (simp add: sum_nonneg)
  ultimately show ?thesis
    by (simp add: r_def)
qed

lemma sum_list_nth: "sum_list (zs :: real list) = (\<Sum>i<length zs. zs ! i)"
  by (simp add: sum_list_sum_nth atLeast0LessThan)

lemma sum_list_map_nth:
  fixes f :: "'a \<Rightarrow> real"
  shows "sum_list (map f zs) = (\<Sum>i<length zs. f (zs ! i))"
proof -
  have "sum_list (map f zs) = (\<Sum>i<length (map f zs). map f zs ! i)"
    by (rule sum_list_nth)
  then show ?thesis by simp
qed

lemma sum_list_zip_nth:
  fixes f :: "'a \<times> 'b \<Rightarrow> real"
  assumes "length xs = length ys"
  shows "sum_list (map f (zip xs ys)) = (\<Sum>i<length xs. f (xs ! i, ys ! i))"
proof -
  have "sum_list (map f (zip xs ys)) = (\<Sum>i<length (zip xs ys). f (zip xs ys ! i))"
    by (rule sum_list_map_nth)
  then show ?thesis using assms by simp
qed

lemma ols_least_squares:
  assumes len: "length xs = length ys" and ne: "xs \<noteq> []"
    and sxx: "sum_list (map (\<lambda>x. (x - mean xs)\<^sup>2) xs) \<noteq> 0"
  shows "sse xs ys (ols_slope xs ys) (ols_intercept xs ys) \<le> sse xs ys a' b'"
proof -
  let ?n = "length xs"
  let ?x = "\<lambda>i. xs ! i" and ?y = "\<lambda>i. ys ! i"
  have n: "0 < ?n" using ne by simp
  have mx: "mean xs = (\<Sum>i<?n. ?x i) / real ?n"
    by (simp add: mean_def sum_list_nth)
  have my: "mean ys = (\<Sum>i<?n. ?y i) / real ?n"
    by (simp add: mean_def sum_list_nth len)
  have sxx_eq: "sum_list (map (\<lambda>x. (x - mean xs)\<^sup>2) xs) = (\<Sum>i<?n. (?x i - mean xs)\<^sup>2)"
    by (rule sum_list_map_nth)
  have sxy_eq: "sum_list (map (\<lambda>(x, y). (x - mean xs) * (y - mean ys)) (zip xs ys))
                  = (\<Sum>i<?n. (?x i - mean xs) * (?y i - mean ys))"
    using sum_list_zip_nth[OF len, of "\<lambda>(x, y). (x - mean xs) * (y - mean ys)"] by simp
  have sse_eq: "sse xs ys a b = (\<Sum>i<?n. (?y i - (a * ?x i + b))\<^sup>2)" for a b
    unfolding sse_def
    using sum_list_zip_nth[OF len, of "\<lambda>(x, y). (y - (a * x + b))\<^sup>2"] by simp
  have "(\<Sum>i<?n. (?y i - (ols_slope xs ys * ?x i + ols_intercept xs ys))\<^sup>2)
          \<le> (\<Sum>i<?n. (?y i - (a' * ?x i + b'))\<^sup>2)"
  proof (rule least_squares_sum[OF n mx my])
    show "(\<Sum>i<?n. (?x i - mean xs)\<^sup>2) \<noteq> 0"
      using sxx unfolding sxx_eq .
    show "ols_slope xs ys = (\<Sum>i<?n. (?x i - mean xs) * (?y i - mean ys)) / (\<Sum>i<?n. (?x i - mean xs)\<^sup>2)"
      by (simp only: ols_slope_def sxx_eq sxy_eq)
    show "ols_intercept xs ys = mean ys - ols_slope xs ys * mean xs"
      by (simp add: ols_intercept_def)
  qed
  then show ?thesis by (simp only: sse_eq)
qed

lemma length_np_arange: "length (np_arange n) = n"
  by (simp add: np_arange_def)

lemma np_arange_sxx:
  assumes "2 \<le> n"
  shows "sum_list (map (\<lambda>x. (x - mean (np_arange n))\<^sup>2) (np_arange n)) \<noteq> 0"
proof
  let ?xs = "np_arange n"
  let ?m = "mean ?xs"
  assume "sum_list (map (\<lambda>x. (x - ?m)\<^sup>2) ?xs) = 0"
  then have z: "(\<Sum>i<n. (?xs ! i - ?m)\<^sup>2) = 0"
    by (simp add: sum_list_map_nth length_np_arange)
  have "\<forall>i\<in>{..<n}. (?xs ! i - ?m)\<^sup>2 = 0"
    using z by (subst (asm) sum_nonneg_eq_0_iff) simp_all
  then have "(?xs ! 0 - ?m)\<^sup>2 = 0" "(?xs ! 1 - ?m)\<^sup>2 = 0"
    using assms by auto
  then have "?xs ! 0 = ?xs ! 1" by simp
  then show False using assms by (simp add: np_arange_def)
qed

lemma np_arange_norm:
  assumes "2 \<le> n"
  shows "sqrt (sum_list (map (\<lambda>v. v\<^sup>2) (np_arange n))) \<noteq> 0"
proof
  assume "sqrt (sum_list (map (\<lambda>v. v\<^sup>2) (np_arange n))) = 0"
  then have "sum_list (map (\<lambda>v. v\<^sup>2) (np_arange n)) = 0"
    by simp
  then have "(\<Sum>i<n. (np_arange n ! i)\<^sup>2) = 0"
    by (simp add: sum_list_map_nth length_np_arange)
  then have "\<forall>i\<in>{..<n}. (np_arange n ! i)\<^sup>2 = 0"
    by (subst (asm) sum_nonneg_eq_0_iff) simp_all
  then have "(np_arange n ! 1)\<^sup>2 = 0"
    using assms by auto
  then show False using assms by (simp add: np_arange_def)
qed

lemma np_polyfit_arange_ge2:
  assumes "2 \<le> length ys"
  shows "np_polyfit_arange ys
           = Inr (ols_slope (np_arange (length ys)) ys, ols_intercept (np_arange (length ys)) ys)"
proof -
  have "np_arange (length ys) \<noteq> []"
    using assms by (auto simp add: np_arange_def)
  then show ?thesis
    using np_arange_norm[OF assms] by (simp add: np_polyfit_arange_def Let_def)
qed

lemma np_polyfit_arange_empty: "np_polyfit_arange [] = Inl TypeError"
  by (simp add: np_polyfit_arange_def np_arange_def)

lemma np_polyfit_arange_single: "np_polyfit_arange [y] = Inl LinAlgError"
  by (simp add: np_polyfit_arange_def np_arange_def)

lemma polyfit_least_squares:
  assumes "2 \<le> length ys"
  shows "\<exists>a b. np_polyfit_arange ys = Inr (a, b)
           \<and> (\<forall>a' b'. sse (np_arange (length ys)) ys a b \<le> sse (np_arange (length ys)) ys a' b')"
proof -
  let ?xs = "np_arange (length ys)"
  have "\<forall>a' b'. sse ?xs ys (ols_slope ?xs ys) (ols_intercept ?xs ys) \<le> sse ?xs ys a' b'"
  proof (intro allI)
    fix a' b'
    show "sse ?xs ys (ols_slope ?xs ys) (ols_intercept ?xs ys) \<le> sse ?xs ys a' b'"
    proof (rule ols_least_squares)
      show "length ?xs = length ys" by (rule length_np_arange)
      show "?xs \<noteq> []" using assms by (auto simp add: np_arange_def)
      show "sum_list (map (\<lambda>x. (x - mean ?xs)\<^sup>2) ?xs) \<noteq> 0"
        using assms by (rule np_arange_sxx)
    qed
  qed
  then show ?thesis
    using np_polyfit_arange_ge2[OF assms] by blast
qed

lemma np_arange_5: "np_arange 5 = [0, 1, 2, 3, 4]"
  by (simp add: np_arange_def upt_rec)

lemma np_polyfit_arange_12345: "np_polyfit_arange [1, 2, 3, 4, 5] = Inr (1, 1)"
proof -
  have l: "length [1, 2, 3, 4, 5 :: real] = 5" by simp
  have m: "mean [0, 1, 2, 3, 4] = 2" "mean [1, 2, 3, 4, 5] = 3"
    by (simp_all add: mean_def)
  have s: "ols_slope [0, 1, 2, 3, 4] [1, 2, 3, 4, 5] = 1"
    by (simp add: ols_slope_def m power2_eq_square)
  have "np_polyfit_arange [1, 2, 3, 4, 5]
          = Inr (ols_slope (np_arange 5) [1, 2, 3, 4, 5], ols_intercept (np_arange 5) [1, 2, 3, 4, 5])"
    using np_polyfit_arange_ge2[of "[1, 2, 3, 4, 5]"] by (simp only: l)
  then show ?thesis
    by (simp add: np_arange_5 ols_intercept_def s m)
qed

subsection \<open>The forecast\<close>

lemma forecast_single_observation:
  "forecast [(d, y)] sku periods today = Inl LinAlgError"
  by (simp add: forecast_def np_polyfit_arange_single bind_err_def)

lemma forecast_predictions:
  assumes "2 \<le> length hist"
  shows "\<exists>f. forecast hist sku periods today = Inr f
           \<and> predictions f = map (make_prediction (mean (map snd hist)) (std (map snd hist))
                 (ols_slope (np_arange (length hist)) (map snd hist)) (length hist) (fst (last hist)))
                 [0..<nat periods]"
proof -
  have ne: "hist \<noteq> []" using assms by auto
  have "np_polyfit_arange (map snd hist)
          = Inr (ols_slope (np_arange (length hist)) (map snd hist),
                 ols_intercept (np_arange (length hist)) (map snd hist))"
    using np_polyfit_arange_ge2[of "map snd hist"] assms by simp
  then show ?thesis using ne
    by (simp add: forecast_def bind_err_def py_last_def Let_def last_map)
qed

lemma np_arange_3: "np_arange 3 = [0, 1, 2]"
  by (simp add: np_arange_def upt_rec)

lemma np_arange_3_Suc: "np_arange (Suc (Suc (Suc 0))) = [0, 1, 2]"
  by (simp add: np_arange_def)

lemma rint_ex: "rint (550 / 3) = 183"
  by (simp add: rint_def Let_def)


subsection \<open>Claims about the forecaster\<close>

text \<open>
  Claim C1, at the input where the code departs from it: \<open>forecast\<close> handles the short
  series only after the trend fit, where the growth rate of a series without a second
  observation is set to 0. The trend fit comes first and has no such guard: on the empty
  historical series it rejects the empty list of abscissae with \<open>TypeError\<close>, so \<open>forecast\<close>
  raises, for every SKU, every number of periods and every day, and returns neither a
  forecast nor an error record.
\<close>

theorem forecast_empty_series_raises:
  "forecast [] sku periods today = Inl TypeError"
  by (simp add: forecast_def np_polyfit_arange_empty bind_err_def)

text \<open>
  Claim C4 as stated fails: the point estimate of the forecast is rounded to two decimals.
  For the series 0, 0, 1 the mean is \<open>1/3\<close> and the slope is \<open>1/2\<close>, so the first future
  step has the value \<open>11/6\<close>, and the forecast holds \<open>1.83\<close>.
\<close>

theorem point_estimate_is_rounded:
  "point_estimates (forecast [(1, 0), (2, 0), (3, 1)] ''SKU0'' 1 3)
     \<noteq> Inr [max 0 (mean [0, 0, 1] + ols_slope (np_arange 3) [0, 0, 1] * real (3 + 0))]"
proof -
  have m: "mean [0, 0, 1] = 1 / 3" "mean [0, 1, 2] = 1"
    by (simp_all add: mean_def)
  have s: "ols_slope [0, 1, 2] [0, 0, 1] = 1 / 2"
    by (simp add: ols_slope_def m power2_eq_square)
  obtain f where f: "forecast [(1, 0), (2, 0), (3, 1)] ''SKU0'' 1 3 = Inr f"
    and p: "predictions f = map (make_prediction (mean (map snd [(1, 0), (2, 0), (3, 1)]))
                 (std (map snd [(1, 0), (2, 0), (3, 1)]))
                 (ols_slope (np_arange (length [(1::int, 0::real), (2, 0), (3, 1)]))
                    (map snd [(1, 0), (2, 0), (3, 1)]))
                 (length [(1::int, 0::real), (2, 0), (3, 1)])
                 (fst (last [(1, 0), (2, 0), (3, 1)])))
                 [0..<nat 1]"
    using forecast_predictions[of "[(1, 0), (2, 0), (3, 1)]" "''SKU0''" 1 3] by auto
  have "point_estimates (forecast [(1, 0), (2, 0), (3, 1)] ''SKU0'' 1 3) = Inr [183 / 100]"
    by (simp add: f p point_estimates_def make_prediction_def forecast_value_def Let_def
        np_arange_3_Suc m s round2_def rint_ex)
  then show ?thesis
    by (simp add: np_arange_3 m s)
qed

text \<open>
  Claim C4, amended: for every historical series of \<open>n \<ge> 2\<close> values with mean \<open>mean\<close>,
  population standard deviation \<open>std\<close> and fitted slope \<open>slope\<close>, and for every future step
  \<open>i\<close> below \<open>periods\<close>, \<open>forecast\<close> returns a forecast with \<open>periods\<close> predictions in
  which, with \<open>v = max(0, mean + slope * (n + i))\<close>, the point estimate is \<open>v\<close> rounded
  to two decimals, the lower bound is \<open>max(0, v - 1.96 * std)\<close> rounded to two decimals
  and the upper bound is \<open>v + 1.96 * std\<close> rounded to two decimals. The half-width
  \<open>1.96 * std\<close> of the band does not depend on \<open>i\<close>.
\<close>

theorem forecast_prediction_values:
  assumes "2 \<le> length hist" and "i < nat periods"
  shows "\<exists>f. forecast hist sku periods today = Inr f
           \<and> length (predictions f) = nat periods
           \<and> predicted_demand (predictions f ! i)
               = round2 (max 0 (mean (map snd hist)
                   + ols_slope (np_arange (length hist)) (map snd hist) * real (length hist + i)))
           \<and> lower_bound (predictions f ! i)
               = round2 (max 0 (max 0 (mean (map snd hist)
                   + ols_slope (np_arange (length hist)) (map snd hist) * real (length hist + i))
                   - 1.96 * std (map snd hist)))
           \<and> upper_bound (predictions f ! i)
               = round2 (max 0 (mean (map snd hist)
                   + ols_slope (np_arange (length hist)) (map snd hist) * real (length hist + i))
                   + 1.96 * std (map snd hist))"
proof -
  obtain f where f: "forecast hist sku periods today = Inr f"
    and p: "predictions f = map (make_prediction (mean (map snd hist)) (std (map snd hist))
                 (ols_slope (np_arange (length hist)) (map snd hist)) (length hist) (fst (last hist)))
                 [0..<nat periods]"
    using forecast_predictions[OF assms(1)] by blast
  show ?thesis using f assms(2)
    by (simp add: p make_prediction_def forecast_value_def Let_def)
qed

theorem forecast_prediction_values_witness:
  "2 \<le> length [(1::int, 0::real), (2, 0), (3, 1)] \<and> 0 < nat 1
   \<and> (\<exists>f. forecast [(1, 0), (2, 0), (3, 1)] ''SKU0'' 1 3 = Inr f
         \<and> length (predictions f) = 1
         \<and> predicted_demand (predictions f ! 0) = 183 / 100)"
proof -
  have m: "mean [0, 0, 1] = 1 / 3" "mean [0, 1, 2] = 1"
    by (simp_all add: mean_def)
  have s: "ols_slope [0, 1, 2] [0, 0, 1] = 1 / 2"
    by (simp add: ols_slope_def m power2_eq_square)
  have h1: "2 \<le> length [(1::int, 0::real), (2, 0), (3, 1)]" by simp
  have h2: "0 < nat 1" by simp
  obtain f where f: "forecast [(1, 0), (2, 0), (3, 1)] ''SKU0'' 1 3 = Inr f"
    and l: "length (predictions f) = nat 1"
    and v: "predicted_demand (predictions f ! 0)
               = round2 (max 0 (mean (map snd [(1::int, 0::real), (2, 0), (3, 1)])
                   + ols_slope (np_arange (length [(1::int, 0::real), (2, 0), (3, 1)]))
                       (map snd [(1::int, 0::real), (2, 0), (3, 1)])
                     * real (length [(1::int, 0::real), (2, 0), (3, 1)] + 0)))"
    using forecast_prediction_values[OF h1 h2, of "''SKU0''" 3] by blast
  have "predicted_demand (predictions f ! 0) = 183 / 100"
    by (simp add: v np_arange_3_Suc m s round2_def rint_ex)
  with f l show ?thesis by simp
qed

text \<open>
  Claim C8, at the input where the code departs from it: the slope of a series with exactly
  1 observation is meant to be 0, and the code has no such rule. It fits a line to the
  single abscissa 0: the column of the abscissae has the norm 0, the system that the fit
  scales by that norm has no solution to return, and the fit raises \<open>LinAlgError\<close> instead
  of returning the slope 0; \<open>forecast\<close> raises with it. With 2 or more observations the
  fit is the least-squares line (lemma \<open>polyfit_least_squares\<close>), and on 1, 2, 3, 4, 5 it
  returns the slope 1 and the intercept 1 (lemma \<open>np_polyfit_arange_12345\<close>).
\<close>

theorem trend_fit_single_observation_raises:
  "np_arange (length [5::real]) = [0]
   \<and> sqrt (sum_list (map (\<lambda>v. v\<^sup>2) (np_arange (length [5::real])))) = 0
   \<and> np_polyfit_arange [5] = Inl LinAlgError
   \<and> forecast [(d, 5)] sku periods today = Inl LinAlgError"
  by (simp add: np_arange_def np_polyfit_arange_def forecast_def bind_err_def)

subsection \<open>Claims about \<open>forecast_demand\<close>\<close>

text \<open>
  Claim C9: for every SKU identifier that is not in the loaded product table,
  \<open>forecast_demand\<close> returns the error record whose message names the identifier, and
  raises nothing.
\<close>

theorem forecast_demand_unknown_sku:
  assumes "sku \<notin> set (map SKU frame)"
  shows "forecast_demand frame z today sku days
           = Inr (ErrorRecord (''SKU '' @ sku @ '' not found''))"
proof -
  have "filter (\<lambda>r. SKU r = sku) frame = []"
    using assms by (auto simp add: filter_empty_conv)
  then show ?thesis
    by (simp add: forecast_demand_def)
qed

theorem forecast_demand_unknown_sku_witness:
  "''SKU9'' \<notin> set (map SKU [\<lparr> SKU = ''SKU0'', number_of_products_sold = 802 \<rparr>])
   \<and> forecast_demand [\<lparr> SKU = ''SKU0'', number_of_products_sold = 802 \<rparr>] (\<lambda>i. 0) 0 ''SKU9'' 30
       = Inr (ErrorRecord ''SKU SKU9 not found'')"
  using forecast_demand_unknown_sku[of "''SKU9''"
      "[\<lparr> SKU = ''SKU0'', number_of_products_sold = 802 \<rparr>]" "\<lambda>i. 0" 0 30]
  by simp

end
